theory Spec2Isabelle
  imports Complex_Main
begin

section \<open>The hyper-parameter optimisation notebook\<close>

text \<open>
  The program is \<^verbatim>\<open>examples/hyperparameter-optimization.ipynb\<close>: six code cells that
  load a dataset, build a gradient boosting regressor, declare a search space of five
  dimensions, define an objective (cross-validation error of the regressor at a given
  configuration), hand the objective to \<^verbatim>\<open>gp_minimize\<close> and report the result.

  The notebook is straight-line glue around library calls, so the model is a state-passing
  one: the state holds the objects the cells share, and every call into a library appends
  one entry to a log of calls, in the order the calls are made. The libraries' own
  behaviour (scikit-learn, numpy's dataset arrays, the optimiser's choice of points) is a
  parameter of the model.
\<close>

subsection \<open>Values\<close>

text \<open>
  Python values that the notebook passes around: integers and floats. Floats are
  idealised as reals; the one float the notebook can meet that is not a number, numpy's
  \<^verbatim>\<open>nan\<close> (the mean of an empty array), is a value of its own.
\<close>

datatype pyval = PyInt int | PyFloat real

datatype npfloat = NaN | Fl real

datatype pyexc = Raised string

type_synonym kwargs = "(string \<times> pyval) list"

type_synonym point = "pyval list"

text \<open>\<^verbatim>\<open>boston.data\<close> is a two-dimensional array, \<^verbatim>\<open>boston.target\<close> a vector.\<close>

record ndarray2 =
  shape :: "nat \<times> nat"
  entries :: "real list"

record bunch =
  data :: ndarray2
  target :: "real list"

text \<open>
  Modelled from the spec: the classes \<^verbatim>\<open>skopt.space.Integer\<close> and \<^verbatim>\<open>skopt.space.Real\<close> are
  not part of the source at hand. The spec calls their instances parameter dimensions of a
  bounded list; a dimension is modelled as the record of its constructor's arguments,
  \<^verbatim>\<open>Integer(low, high, name=...)\<close> and \<^verbatim>\<open>Real(low, high, prior, name=...)\<close>.
\<close>

datatype dimension =
    Integer int int string
  | Real' real real string string

fun dim_name :: "dimension \<Rightarrow> string" where
  "dim_name (Integer lo hi nm) = nm"
| "dim_name (Real' lo hi prior nm) = nm"

fun low :: "dimension \<Rightarrow> real" where
  "low (Integer lo hi nm) = of_int lo"
| "low (Real' lo hi prior nm) = lo"

fun high :: "dimension \<Rightarrow> real" where
  "high (Integer lo hi nm) = of_int hi"
| "high (Real' lo hi prior nm) = hi"

text \<open>
  Modelled from the spec: the optimisation result is an object of the optimiser, which is
  not part of the source at hand. The notebook reads \<^verbatim>\<open>res_gp.x\<close> (the best point) and
  \<^verbatim>\<open>res_gp.fun\<close> (its score) and passes the whole object to the plot; the model keeps, beside
  these two, the points evaluated and their scores in evaluation order.
\<close>

record result =
  res_x :: point
  res_fun :: npfloat
  x_iters :: "point list"
  func_vals :: "npfloat list"

subsection \<open>Library calls and shared state\<close>

datatype call =
    Call_load_boston
  | Call_GradientBoostingRegressor kwargs
  | Call_dimension dimension
  | Call_use_named_args "dimension list"
  | Call_gp_minimize "dimension list" nat int
  | Call_set_params kwargs
  | Call_cross_val_score nat int string
  | Call_np_mean "real list"
  | Call_display npfloat
  | Call_print "(string \<times> pyval) list"
  | Call_plot_convergence result

text \<open>
  What the libraries do is a parameter. Loading the dataset and constructing the estimator
  are taken to return. \<^verbatim>\<open>set_params\<close> mutates the estimator in place and may raise: it
  returns the exception, if any, and the estimator as the call leaves it. \<^verbatim>\<open>get_params\<close>
  reads the estimator's parameters by name. \<^verbatim>\<open>cross_val_score\<close> fits clones of the
  estimator and leaves its arguments alone: it returns the per-fold scores or raises.
  \<^verbatim>\<open>next_point\<close> is the optimiser's choice of the next point to evaluate from the space,
  the seed and the evaluations so far.
\<close>

record 'est library =
  load_boston :: bunch
  GradientBoostingRegressor :: "kwargs \<Rightarrow> 'est"
  set_params :: "'est \<Rightarrow> kwargs \<Rightarrow> pyexc option \<times> 'est"
  get_params :: "'est \<Rightarrow> string \<Rightarrow> pyval option"
  cross_val_score ::
    "'est \<Rightarrow> ndarray2 \<Rightarrow> real list \<Rightarrow> nat \<Rightarrow> int \<Rightarrow> string \<Rightarrow> pyexc + real list"
  next_point :: "dimension list \<Rightarrow> int \<Rightarrow> (point \<times> npfloat) list \<Rightarrow> point"

text \<open>
  The objects the cells share: \<^verbatim>\<open>boston\<close> (with \<^verbatim>\<open>X\<close> and \<^verbatim>\<open>y\<close> naming its two arrays),
  the estimator \<^verbatim>\<open>reg\<close>, and the log of calls.
\<close>

record 'est world =
  calls :: "call list"
  boston :: bunch
  reg :: 'est

definition glob_X :: "'est world \<Rightarrow> ndarray2" where
  "glob_X w = data (boston w)"

definition glob_y :: "'est world \<Rightarrow> real list" where
  "glob_y w = target (boston w)"

text \<open>A computation either returns or raises, and leaves a state either way.\<close>

type_synonym ('a, 's) py = "'s \<Rightarrow> (pyexc + 'a) \<times> 's"

definition return_py :: "'a \<Rightarrow> ('a, 's) py" where
  "return_py a s = (Inr a, s)"

definition bind_py :: "('a, 's) py \<Rightarrow> ('a \<Rightarrow> ('b, 's) py) \<Rightarrow> ('b, 's) py" where
  "bind_py m f s = (case m s of (Inl e, s') \<Rightarrow> (Inl e, s') | (Inr a, s') \<Rightarrow> f a s')"

definition log_call :: "call \<Rightarrow> 'est world \<Rightarrow> 'est world" where
  "log_call c w = w\<lparr>calls := calls w @ [c]\<rparr>"

definition call_set_params :: "'est library \<Rightarrow> kwargs \<Rightarrow> (unit, 'est world) py" where
  "call_set_params L params w =
     (case set_params L (reg w) params of
        (exc, r) \<Rightarrow>
          ((case exc of Some e \<Rightarrow> Inl e | None \<Rightarrow> Inr ()),
           (log_call (Call_set_params params) w)\<lparr>reg := r\<rparr>))"

definition call_cross_val_score ::
  "'est library \<Rightarrow> nat \<Rightarrow> int \<Rightarrow> string \<Rightarrow> (real list, 'est world) py" where
  "call_cross_val_score L cv n_jobs scoring w =
     (cross_val_score L (reg w) (glob_X w) (glob_y w) cv n_jobs scoring,
      log_call (Call_cross_val_score cv n_jobs scoring) w)"

subsection \<open>numpy\<close>

text \<open>\<^verbatim>\<open>np.mean\<close> of a one-dimensional array; of an empty one it is \<^verbatim>\<open>nan\<close>.\<close>

definition np_mean :: "real list \<Rightarrow> npfloat" where
  "np_mean xs = (if xs = [] then NaN else Fl (sum_list xs / real (length xs)))"

fun np_neg :: "npfloat \<Rightarrow> npfloat" where
  "np_neg NaN = NaN"
| "np_neg (Fl r) = Fl (- r)"

text \<open>Comparison of floats: every comparison with \<^verbatim>\<open>nan\<close> is false.\<close>

fun fl_less :: "npfloat \<Rightarrow> npfloat \<Rightarrow> bool" where
  "fl_less (Fl a) (Fl b) = (a < b)"
| "fl_less _ _ = False"

definition call_np_mean :: "real list \<Rightarrow> (npfloat, 'est world) py" where
  "call_np_mean xs w = (Inr (np_mean xs), log_call (Call_np_mean xs) w)"

subsection \<open>Cell 3: the objective\<close>

text \<open>
  \<^verbatim>\<open>
  def objective(**params):
      reg.set_params(**params)
      return -np.mean(cross_val_score(reg, X, y, cv=5, n_jobs=-1,
                                      scoring="neg_mean_absolute_error"))
  \<close>
\<close>

definition objective :: "'est library \<Rightarrow> kwargs \<Rightarrow> (npfloat, 'est world) py" where
  "objective L params =
     bind_py (call_set_params L params) (\<lambda>_.
     bind_py (call_cross_val_score L 5 (- 1) ''neg_mean_absolute_error'') (\<lambda>scores.
     bind_py (call_np_mean scores) (\<lambda>m.
     return_py (np_neg m))))"

text \<open>
  \<^verbatim>\<open>
  space  = [Integer(1, 5, name='max_depth'),
            Real(10**-5, 10**0, "log-uniform", name='learning_rate'),
            Integer(1, n_features, name='max_features'),
            Integer(2, 100, name='min_samples_split'),
            Integer(1, 100, name='min_samples_leaf')]
  \<close>
  In Python \<^verbatim>\<open>10**-5\<close> is the float \<^verbatim>\<open>1e-05\<close> and \<^verbatim>\<open>10**0\<close> the integer 1.
\<close>

definition space :: "nat \<Rightarrow> dimension list" where
  "space n_features =
     [Integer 1 5 ''max_depth'',
      Real' (1 / 10 ^ 5) (10 ^ 0) ''log-uniform'' ''learning_rate'',
      Integer 1 (int n_features) ''max_features'',
      Integer 2 100 ''min_samples_split'',
      Integer 1 100 ''min_samples_leaf'']"

text \<open>
  Modelled from the spec: \<^verbatim>\<open>skopt.utils.use_named_args\<close> is not part of the source at hand.
  The notebook says of it that it lets the objective receive the parameters as keyword
  arguments: the decorated function takes one point and calls the function it wraps with
  the i-th value of the point bound to the name of the i-th dimension. Only points with
  one value per dimension are described; the model rejects any other point, so that no
  binding is claimed for it.
\<close>

definition use_named_args ::
  "dimension list \<Rightarrow> (kwargs \<Rightarrow> ('a, 's) py) \<Rightarrow> point \<Rightarrow> ('a, 's) py" where
  "use_named_args dimensions func x =
     (if length x \<noteq> length dimensions then (\<lambda>s. (Inl (Raised ''ValueError''), s))
      else func (zip (map dim_name dimensions) x))"

subsection \<open>Cell 4: the optimiser\<close>

text \<open>
  Modelled from the spec: \<^verbatim>\<open>skopt.gp_minimize\<close> is not part of the source at hand. The spec
  describes it as an optimiser that minimises an objective, a function from a candidate
  configuration to a score, by choosing promising next points from the evaluations made
  so far, within a budget of evaluations. The model asks \<^verbatim>\<open>next_point\<close> for a point,
  evaluates the objective there, and repeats \<^verbatim>\<open>n_calls\<close> times; an exception of the
  objective ends the run. The result reports the first evaluation with the least score;
  a run of no evaluation has none to report and raises.
\<close>

fun minimize_loop ::
  "((point \<times> npfloat) list \<Rightarrow> point) \<Rightarrow> (point \<Rightarrow> (npfloat, 's) py) \<Rightarrow> nat \<Rightarrow>
   (point \<times> npfloat) list \<Rightarrow> ((point \<times> npfloat) list, 's) py" where
  "minimize_loop ask func 0 hist s = (Inr hist, s)"
| "minimize_loop ask func (Suc n) hist s =
     (case func (ask hist) s of
        (Inl e, s') \<Rightarrow> (Inl e, s')
      | (Inr v, s') \<Rightarrow> minimize_loop ask func n (hist @ [(ask hist, v)]) s')"

fun best :: "point \<times> npfloat \<Rightarrow> (point \<times> npfloat) list \<Rightarrow> point \<times> npfloat" where
  "best b [] = b"
| "best b (p # ps) = best (if fl_less (snd p) (snd b) then p else b) ps"

definition result_of :: "(point \<times> npfloat) list \<Rightarrow> pyexc + result" where
  "result_of hist =
     (case hist of
        [] \<Rightarrow> Inl (Raised ''ValueError'')
      | p # ps \<Rightarrow>
          Inr \<lparr>res_x = fst (best p ps), res_fun = snd (best p ps),
               x_iters = map fst hist, func_vals = map snd hist\<rparr>)"

definition gp_minimize ::
  "'est library \<Rightarrow> (point \<Rightarrow> (npfloat, 'est world) py) \<Rightarrow> dimension list \<Rightarrow> nat \<Rightarrow> int \<Rightarrow>
   (result, 'est world) py" where
  "gp_minimize L func dimensions n_calls random_state w =
     (case minimize_loop (next_point L dimensions random_state) func n_calls []
             (log_call (Call_gp_minimize dimensions n_calls random_state) w) of
        (Inl e, w') \<Rightarrow> (Inl e, w')
      | (Inr hist, w') \<Rightarrow> (result_of hist, w'))"

subsection \<open>The cells in order\<close>

text \<open>
  Cell 1 only imports. Cell 2 (before it nothing is bound, and the state is the log alone):
  \<^verbatim>\<open>
  boston = load_boston()
  X, y = boston.data, boston.target
  n_features = X.shape[1]
  reg = GradientBoostingRegressor(n_estimators=50, random_state=0)
  \<close>
\<close>

definition call_load_boston :: "'est library \<Rightarrow> call list \<Rightarrow> bunch \<times> call list" where
  "call_load_boston L cs = (load_boston L, cs @ [Call_load_boston])"

definition call_GradientBoostingRegressor ::
  "'est library \<Rightarrow> kwargs \<Rightarrow> call list \<Rightarrow> 'est \<times> call list" where
  "call_GradientBoostingRegressor L kw cs =
     (GradientBoostingRegressor L kw, cs @ [Call_GradientBoostingRegressor kw])"

definition cell2 :: "'est library \<Rightarrow> 'est world" where
  "cell2 L =
     (case call_load_boston L [] of
        (b, cs1) \<Rightarrow>
          (case call_GradientBoostingRegressor L
                  [(''n_estimators'', PyInt 50), (''random_state'', PyInt 0)] cs1 of
             (r, cs2) \<Rightarrow> \<lparr>calls = cs2, boston = b, reg = r\<rparr>))"

definition n_features :: "'est world \<Rightarrow> nat" where
  "n_features w = snd (shape (glob_X w))"

text \<open>
  Cell 3 builds the five dimensions, left to right, and decorates the objective.
\<close>

definition cell3 :: "nat \<Rightarrow> 'est world \<Rightarrow> 'est world" where
  "cell3 nf w =
     log_call (Call_use_named_args (space nf))
       (foldl (\<lambda>w' d. log_call (Call_dimension d) w') w (space nf))"

text \<open>
  Cell 4:
  \<^verbatim>\<open>
  res_gp = gp_minimize(objective, space, n_calls=50, random_state=0)
  "Best score=%.4f" % res_gp.fun
  \<close>
  The value of the last expression is what the notebook displays.
\<close>

definition call_display :: "npfloat \<Rightarrow> (unit, 'est world) py" where
  "call_display v w = (Inr (), log_call (Call_display v) w)"

definition cell4 :: "'est library \<Rightarrow> nat \<Rightarrow> (result, 'est world) py" where
  "cell4 L nf =
     bind_py (gp_minimize L (use_named_args (space nf) (objective L)) (space nf) 50 0)
       (\<lambda>res_gp.
     bind_py (call_display (res_fun res_gp)) (\<lambda>_.
     return_py res_gp))"

text \<open>
  Cell 5 prints \<^verbatim>\<open>res_gp.x[0]\<close> to \<^verbatim>\<open>res_gp.x[4]\<close>, each under the label the format
  string gives it. Indexing a list out of range raises \<^verbatim>\<open>IndexError\<close>.
\<close>

definition index :: "'a list \<Rightarrow> nat \<Rightarrow> ('a, 's) py" where
  "index xs i s =
     (if i < length xs then (Inr (xs ! i), s) else (Inl (Raised ''IndexError''), s))"

definition call_print :: "(string \<times> pyval) list \<Rightarrow> (unit, 'est world) py" where
  "call_print kvs w = (Inr (), log_call (Call_print kvs) w)"

definition cell5 :: "result \<Rightarrow> (unit, 'est world) py" where
  "cell5 res_gp =
     bind_py (index (res_x res_gp) 0) (\<lambda>x0.
     bind_py (index (res_x res_gp) 1) (\<lambda>x1.
     bind_py (index (res_x res_gp) 2) (\<lambda>x2.
     bind_py (index (res_x res_gp) 3) (\<lambda>x3.
     bind_py (index (res_x res_gp) 4) (\<lambda>x4.
     call_print
       [(''max_depth'', x0), (''learning_rate'', x1), (''max_features'', x2),
        (''min_samples_split'', x3), (''min_samples_leaf'', x4)])))))"

text \<open>Cell 6: \<^verbatim>\<open>plot_convergence(res_gp)\<close>.\<close>

definition cell6 :: "result \<Rightarrow> (unit, 'est world) py" where
  "cell6 res_gp w = (Inr (), log_call (Call_plot_convergence res_gp) w)"

text \<open>
  Running all cells. The run stops at the first cell that raises. The value of a complete
  run is \<^verbatim>\<open>res_gp\<close>.
\<close>

definition notebook :: "'est library \<Rightarrow> (pyexc + result) \<times> 'est world" where
  "notebook L =
     (let w2 = cell2 L;
          nf = n_features w2;
          w3 = cell3 nf w2
      in bind_py (cell4 L nf) (\<lambda>res_gp.
         bind_py (cell5 res_gp) (\<lambda>_.
         bind_py (cell6 res_gp) (\<lambda>_.
         return_py res_gp))) w3)"

text \<open>
  The calls a cell makes itself, as opposed to the calls made from inside the objective
  while the optimiser runs.
\<close>

fun top_level :: "call \<Rightarrow> bool" where
  "top_level (Call_set_params _) = False"
| "top_level (Call_cross_val_score _ _ _) = False"
| "top_level (Call_np_mean _) = False"
| "top_level _ = True"

datatype step =
    Load_dataset
  | Construct_estimator
  | Declare_bounds
  | Define_objective
  | Invoke_optimizer
  | Print_and_plot
  | Evaluate_objective

fun step_of :: "call \<Rightarrow> step" where
  "step_of Call_load_boston = Load_dataset"
| "step_of (Call_GradientBoostingRegressor _) = Construct_estimator"
| "step_of (Call_dimension _) = Declare_bounds"
| "step_of (Call_use_named_args _) = Define_objective"
| "step_of (Call_gp_minimize _ _ _) = Invoke_optimizer"
| "step_of (Call_display _) = Print_and_plot"
| "step_of (Call_print _) = Print_and_plot"
| "step_of (Call_plot_convergence _) = Print_and_plot"
| "step_of _ = Evaluate_objective"

fun is_gp_minimize :: "call \<Rightarrow> bool" where
  "is_gp_minimize (Call_gp_minimize _ _ _) = True"
| "is_gp_minimize _ = False"

text \<open>
  The calls of one evaluation of the objective that returned, given the keyword arguments
  and the scores of the cross-validation; and what is left of them when the evaluation
  raised: nothing (the point was rejected before the objective ran), the \<^verbatim>\<open>set_params\<close>
  call alone (it raised), or \<^verbatim>\<open>set_params\<close> and \<^verbatim>\<open>cross_val_score\<close> (the latter raised).
\<close>

definition evaluation_calls :: "kwargs \<Rightarrow> real list \<Rightarrow> call list" where
  "evaluation_calls params scores =
     [Call_set_params params, Call_cross_val_score 5 (- 1) ''neg_mean_absolute_error'',
      Call_np_mean scores]"

definition aborted_evaluation :: "string list \<Rightarrow> call list \<Rightarrow> bool" where
  "aborted_evaluation names cs =
     (cs = [] \<or> (\<exists>p. cs = [Call_set_params (zip names p)]) \<or>
      (\<exists>p. cs = [Call_set_params (zip names p),
                   Call_cross_val_score 5 (- 1) ''neg_mean_absolute_error'']))"

text \<open>What cells 4 to 6 report once the optimiser has returned.\<close>

definition report_calls :: "dimension list \<Rightarrow> pyexc + result \<Rightarrow> call list" where
  "report_calls dims r =
     (case r of
        Inl e \<Rightarrow> []
      | Inr res \<Rightarrow>
          [Call_display (res_fun res), Call_print (zip (map dim_name dims) (res_x res)),
           Call_plot_convergence res])"

text \<open>
  The contract of \<^verbatim>\<open>set_params\<close> and \<^verbatim>\<open>get_params\<close>: after a \<^verbatim>\<open>set_params\<close> that returned,
  the estimator reports each parameter it was given (under distinct names) with the value
  it was given.
\<close>

definition stores_params :: "'est library \<Rightarrow> bool" where
  "stores_params L =
     (\<forall>e kw r k v. set_params L e kw = (None, r) \<longrightarrow> distinct (map fst kw) \<longrightarrow>
        (k, v) \<in> set kw \<longrightarrow> get_params L r k = Some v)"

text \<open>Running the objective on a list of configurations, one after the other.\<close>

fun run_objective :: "'est library \<Rightarrow> kwargs list \<Rightarrow> 'est world \<Rightarrow> 'est world" where
  "run_objective L [] w = w"
| "run_objective L (c # cs) w = run_objective L cs (snd (objective L c w))"

subsection \<open>A small library to run the notebook on\<close>

text \<open>
  An estimator that is its parameter dictionary, a cross-validation whose five scores are
  all minus the depth, and an optimiser that walks through the depths 1 to 5 in turn.
\<close>

definition demo_set_params ::
  "(string \<Rightarrow> pyval option) \<Rightarrow> kwargs \<Rightarrow> pyexc option \<times> (string \<Rightarrow> pyval option)" where
  "demo_set_params est params =
     (if list_all (\<lambda>kv. est (fst kv) \<noteq> None) params then (None, est ++ map_of params)
      else (Some (Raised ''ValueError: invalid parameter''), est))"

definition demo_cross_val_score ::
  "(string \<Rightarrow> pyval option) \<Rightarrow> ndarray2 \<Rightarrow> real list \<Rightarrow> nat \<Rightarrow> int \<Rightarrow> string \<Rightarrow>
   pyexc + real list" where
  "demo_cross_val_score est X y cv n_jobs scoring =
     (case est ''max_depth'' of
        Some (PyInt d) \<Rightarrow>
          if d < 1 then Inl (Raised ''ValueError: max_depth must be positive'')
          else Inr (replicate cv (- of_int d))
      | _ \<Rightarrow> Inl (Raised ''TypeError''))"

definition demo_next_point :: "dimension list \<Rightarrow> int \<Rightarrow> (point \<times> npfloat) list \<Rightarrow> point" where
  "demo_next_point dimensions random_state hist =
     [PyInt (1 + int (length hist mod 5)), PyFloat (1 / 10), PyInt 1, PyInt 2, PyInt 1]"

definition demo_library :: "(string \<Rightarrow> pyval option) library" where
  "demo_library =
     \<lparr>load_boston = \<lparr>data = \<lparr>shape = (2, 13), entries = replicate 26 0\<rparr>, target = [0, 0]\<rparr>,
      GradientBoostingRegressor =
        (\<lambda>kw. map_of (kw @ [(''max_depth'', PyInt 3), (''learning_rate'', PyFloat (1 / 10)),
                            (''max_features'', PyInt 1), (''min_samples_split'', PyInt 2),
                            (''min_samples_leaf'', PyInt 1)])),
      set_params = demo_set_params,
      get_params = (\<lambda>est. est),
      cross_val_score = demo_cross_val_score,
      next_point = demo_next_point\<rparr>"

definition demo_world :: "(string \<Rightarrow> pyval option) world" where
  "demo_world = cell2 demo_library"

definition demo_config :: "int \<Rightarrow> kwargs" where
  "demo_config d =
     [(''max_depth'', PyInt d), (''learning_rate'', PyFloat (1 / 10)),
      (''max_features'', PyInt 1), (''min_samples_split'', PyInt 2),
      (''min_samples_leaf'', PyInt 1)]"

section \<open>Properties\<close>

subsection \<open>The objective, step by step\<close>

lemma objective_unfold:
  "objective L params w =
     (case set_params L (reg w) params of
        (Some e, r) \<Rightarrow> (Inl e, w\<lparr>calls := calls w @ [Call_set_params params], reg := r\<rparr>)
      | (None, r) \<Rightarrow>
          (case cross_val_score L r (glob_X w) (glob_y w) 5 (- 1) ''neg_mean_absolute_error'' of
             Inl e \<Rightarrow>
               (Inl e, w\<lparr>calls := calls w @ [Call_set_params params,
                          Call_cross_val_score 5 (- 1) ''neg_mean_absolute_error''], reg := r\<rparr>)
           | Inr scores \<Rightarrow>
               (Inr (np_neg (np_mean scores)),
                w\<lparr>calls := calls w @ [Call_set_params params,
                     Call_cross_val_score 5 (- 1) ''neg_mean_absolute_error'',
                     Call_np_mean scores], reg := r\<rparr>)))"
  by (simp add: objective_def bind_py_def return_py_def call_set_params_def
      call_cross_val_score_def call_np_mean_def log_call_def glob_X_def glob_y_def
      split: prod.splits option.splits sum.splits)

lemma objective_reg: "reg (snd (objective L params w)) = snd (set_params L (reg w) params)"
  by (simp add: objective_unfold split: prod.splits option.splits sum.splits)

lemma objective_boston: "boston (snd (objective L params w)) = boston w"
  by (simp add: objective_unfold split: prod.splits option.splits sum.splits)

lemma objective_more: "world.more (snd (objective L params w)) = world.more w"
  by (simp add: objective_unfold split: prod.splits option.splits sum.splits)

lemma objective_calls:
  "\<exists>cs. calls (snd (objective L params w)) = calls w @ cs \<and> (\<forall>c\<in>set cs. \<not> top_level c)"
  by (simp add: objective_unfold split: prod.splits option.splits sum.splits)

lemma objective_Inr_set_params:
  "fst (objective L params w) = Inr v \<Longrightarrow> fst (set_params L (reg w) params) = None"
  by (simp add: objective_unfold split: prod.splits option.splits sum.splits)

lemma wrapped_cases:
  "use_named_args dims func p s =
     (if length p = length dims then func (zip (map dim_name dims) p) s
      else (Inl (Raised ''ValueError''), s))"
  by (simp add: use_named_args_def)

lemma wrapped_calls:
  "\<exists>cs. calls (snd (use_named_args dims (objective L) p s)) = calls s @ cs \<and>
        (\<forall>c\<in>set cs. \<not> top_level c)"
  using objective_calls [of L "zip (map dim_name dims) p" s]
  by (simp add: wrapped_cases)

lemma wrapped_boston: "boston (snd (use_named_args dims (objective L) p s)) = boston s"
  by (simp add: wrapped_cases objective_boston)

lemma wrapped_Inr_length:
  "use_named_args dims func p s = (Inr v, s') \<Longrightarrow> length p = length dims"
  by (simp add: wrapped_cases split: if_splits)

lemma minimize_loop_calls:
  assumes "\<And>p s. \<exists>cs. calls (snd (func p s)) = calls s @ cs \<and> (\<forall>c\<in>set cs. \<not> top_level c)"
  shows "\<exists>cs. calls (snd (minimize_loop ask func n hist s)) = calls s @ cs \<and>
              (\<forall>c\<in>set cs. \<not> top_level c)"
proof (induction n arbitrary: hist s)
  case 0
  show ?case by simp
next
  case (Suc n)
  obtain r s' where f: "func (ask hist) s = (r, s')" by (cases "func (ask hist) s")
  from assms [of "ask hist" s] f obtain cs where
    cs: "calls s' = calls s @ cs" "\<forall>c\<in>set cs. \<not> top_level c" by auto
  show ?case
  proof (cases r)
    case (Inl e)
    with f cs show ?thesis by simp
  next
    case (Inr v)
    from Suc.IH [of "hist @ [(ask hist, v)]" s'] obtain cs' where
      cs': "calls (snd (minimize_loop ask func n (hist @ [(ask hist, v)]) s')) = calls s' @ cs'"
        "\<forall>c\<in>set cs'. \<not> top_level c" by auto
    have "calls (snd (minimize_loop ask func (Suc n) hist s)) = calls s @ (cs @ cs')"
      using f Inr cs cs' by simp
    moreover have "\<forall>c\<in>set (cs @ cs'). \<not> top_level c" using cs cs' by auto
    ultimately show ?thesis by blast
  qed
qed

lemma minimize_loop_points:
  assumes "\<And>p s v s'. func p s = (Inr v, s') \<Longrightarrow> P p"
  shows "minimize_loop ask func n hist s = (Inr hist', s') \<Longrightarrow> \<forall>q\<in>set hist. P (fst q) \<Longrightarrow>
         (\<forall>q\<in>set hist'. P (fst q)) \<and> length hist' = length hist + n"
proof (induction n arbitrary: hist s)
  case 0
  then show ?case by simp
next
  case (Suc n)
  obtain r s1 where f: "func (ask hist) s = (r, s1)" by (cases "func (ask hist) s")
  show ?case
  proof (cases r)
    case (Inl e)
    with f Suc.prems show ?thesis by simp
  next
    case (Inr v)
    with f Suc.prems have run: "minimize_loop ask func n (hist @ [(ask hist, v)]) s1 = (Inr hist', s')"
      by simp
    from assms f Inr have "P (ask hist)" by blast
    with Suc.prems have "\<forall>q\<in>set (hist @ [(ask hist, v)]). P (fst q)" by simp
    from Suc.IH [OF run this] show ?thesis by simp
  qed
qed

lemma minimize_loop_last:
  "minimize_loop ask func n hist s = (Inr hist', s') \<Longrightarrow> 0 < n \<Longrightarrow>
   hist' \<noteq> [] \<and> (\<exists>s0. func (fst (last hist')) s0 = (Inr (snd (last hist')), s'))"
proof (induction n arbitrary: hist s)
  case 0
  then show ?case by simp
next
  case (Suc n)
  obtain r s1 where f: "func (ask hist) s = (r, s1)" by (cases "func (ask hist) s")
  show ?case
  proof (cases r)
    case (Inl e)
    with f Suc.prems show ?thesis by simp
  next
    case (Inr v)
    with f Suc.prems have run: "minimize_loop ask func n (hist @ [(ask hist, v)]) s1 = (Inr hist', s')"
      by simp
    show ?thesis
    proof (cases n)
      case 0
      with run have "hist' = hist @ [(ask hist, v)]" "s' = s1" by simp_all
      with f Inr show ?thesis by auto
    next
      case (Suc m)
      with Suc.IH [OF run] show ?thesis by simp
    qed
  qed
qed

lemma minimize_loop_boston:
  assumes "\<And>p s. boston (snd (func p s)) = boston s"
  shows "boston (snd (minimize_loop ask func n hist s)) = boston s"
proof (induction n arbitrary: hist s)
  case 0
  show ?case by simp
next
  case (Suc n)
  obtain r s' where f: "func (ask hist) s = (r, s')" by (cases "func (ask hist) s")
  with assms [of "ask hist" s] have b: "boston s' = boston s" by simp
  show ?case using f b Suc.IH by (cases r) simp_all
qed

lemma best_in: "best b ps \<in> set (b # ps)"
  by (induction ps arbitrary: b) (simp, force)

lemma result_of_Inr:
  assumes "result_of hist = Inr res"
  shows "hist \<noteq> [] \<and> x_iters res = map fst hist \<and> func_vals res = map snd hist \<and>
     (res_x res, res_fun res) \<in> set hist"
proof (cases hist)
  case Nil
  with assms show ?thesis by (simp add: result_of_def)
next
  case (Cons p ps)
  with assms have res: "res = \<lparr>res_x = fst (best p ps), res_fun = snd (best p ps),
               x_iters = map fst hist, func_vals = map snd hist\<rparr>"
    by (simp add: result_of_def)
  have "(fst (best p ps), snd (best p ps)) \<in> set (p # ps)"
    using best_in [of p ps] by simp
  with Cons res show ?thesis by simp
qed

lemma result_of_nonempty: "hist \<noteq> [] \<Longrightarrow> \<exists>res. result_of hist = Inr res"
  by (cases hist) (simp_all add: result_of_def)

lemma objective_snd:
  "snd (objective L params w) =
     w\<lparr>calls := calls (snd (objective L params w)),
       reg := snd (set_params L (reg w) params)\<rparr>"
  by (simp add: objective_unfold split: prod.splits option.splits sum.splits)

lemma objective_fst_cong:
  assumes "set_params L (reg w1) params = set_params L (reg w2) params"
    and "boston w1 = boston w2"
  shows "fst (objective L params w1) = fst (objective L params w2)"
  using assms
  by (simp add: objective_unfold glob_X_def glob_y_def
      split: prod.splits option.splits sum.splits)

lemma run_objective_boston: "boston (run_objective L cs w) = boston w"
  by (induction cs arbitrary: w) (simp_all add: objective_boston)

lemma run_objective_set_params:
  assumes law: "\<And>e kw kw'. map fst kw = map fst kw' \<Longrightarrow>
                  set_params L (snd (set_params L e kw)) kw' = set_params L e kw'"
  shows "(\<And>c. c \<in> set cs \<Longrightarrow> map fst c = map fst params) \<Longrightarrow>
         set_params L (reg (run_objective L cs w)) params = set_params L (reg w) params"
proof (induction cs arbitrary: w)
  case Nil
  show ?case by simp
next
  case (Cons c cs)
  have "set_params L (reg (run_objective L (c # cs) w)) params =
        set_params L (reg (snd (objective L c w))) params"
    using Cons.IH [of "snd (objective L c w)"] Cons.prems by simp
  also have "\<dots> = set_params L (snd (set_params L (reg w) c)) params"
    by (simp add: objective_reg)
  also have "\<dots> = set_params L (reg w) params"
    using law [of c params "reg w"] Cons.prems by simp
  finally show ?case .
qed

subsection \<open>The optimiser and the run of the notebook\<close>

lemma gp_minimize_calls:
  assumes "\<And>p s. \<exists>cs. calls (snd (func p s)) = calls s @ cs \<and> (\<forall>c\<in>set cs. \<not> top_level c)"
  shows "\<exists>evals. (\<forall>c\<in>set evals. \<not> top_level c) \<and>
           calls (snd (gp_minimize L func dims n rs w)) =
             calls w @ [Call_gp_minimize dims n rs] @ evals"
proof -
  let ?w = "log_call (Call_gp_minimize dims n rs) w"
  from minimize_loop_calls [of func "next_point L dims rs" n "[]" ?w, OF assms]
  obtain cs where cs:
    "calls (snd (minimize_loop (next_point L dims rs) func n [] ?w)) = calls ?w @ cs"
    "\<forall>c\<in>set cs. \<not> top_level c" by blast
  have "snd (gp_minimize L func dims n rs w) =
          snd (minimize_loop (next_point L dims rs) func n [] ?w)"
    by (simp add: gp_minimize_def split: prod.splits sum.splits)
  with cs show ?thesis by (auto simp: log_call_def)
qed

lemma gp_minimize_Inr:
  assumes "gp_minimize L func dims n rs w = (Inr res, w')"
  shows "\<exists>hist. minimize_loop (next_point L dims rs) func n []
                  (log_call (Call_gp_minimize dims n rs) w) = (Inr hist, w') \<and>
               result_of hist = Inr res"
  using assms by (auto simp: gp_minimize_def split: prod.splits sum.splits)

lemma gp_minimize_best_length:
  assumes "gp_minimize L (use_named_args dims func) dims n rs w = (Inr res, w')"
  shows "length (res_x res) = length dims"
proof -
  from gp_minimize_Inr [OF assms] obtain hist where
    run: "minimize_loop (next_point L dims rs) (use_named_args dims func) n []
            (log_call (Call_gp_minimize dims n rs) w) = (Inr hist, w')"
    and res: "result_of hist = Inr res" by blast
  have "\<forall>q\<in>set hist. length (fst q) = length dims"
    using minimize_loop_points [where P = "\<lambda>p. length p = length dims", OF _ run]
      wrapped_Inr_length [of dims func] by simp
  moreover from result_of_Inr [OF res] have "(res_x res, res_fun res) \<in> set hist" by simp
  ultimately show ?thesis by force
qed

lemma length_space: "length (space nf) = 5"
  by (simp add: space_def)

lemma names_space:
  "map dim_name (space nf) =
     [''max_depth'', ''learning_rate'', ''max_features'', ''min_samples_split'',
      ''min_samples_leaf'']"
  by (simp add: space_def)

lemma calls_cell3:
  "calls (cell3 nf (cell2 L)) =
     [Call_load_boston,
      Call_GradientBoostingRegressor [(''n_estimators'', PyInt 50), (''random_state'', PyInt 0)]] @
     map Call_dimension (space nf) @ [Call_use_named_args (space nf)]"
  by (simp add: cell3_def cell2_def call_load_boston_def call_GradientBoostingRegressor_def log_call_def space_def)

lemma cell5_length5:
  assumes "length (res_x res) = 5"
  shows "cell5 res w =
           (Inr (), log_call (Call_print (zip (map dim_name (space nf)) (res_x res))) w)"
proof -
  from assms obtain x0 x1 x2 x3 x4 where "res_x res = [x0, x1, x2, x3, x4]"
    by (auto simp: length_Suc_conv numeral_eq_Suc)
  then show ?thesis
    by (simp add: cell5_def bind_py_def index_def call_print_def names_space)
qed

lemma notebook_run:
  fixes L :: "'est library"
  defines "nf \<equiv> n_features (cell2 L)"
  defines "g \<equiv> gp_minimize L (use_named_args (space nf) (objective L)) (space nf) 50 0
                 (cell3 nf (cell2 L))"
  shows "fst (notebook L) = fst g"
    and "calls (snd (notebook L)) = calls (snd g) @ report_calls (space nf) (fst g)"
    and "reg (snd (notebook L)) = reg (snd g)"
    and "boston (snd (notebook L)) = boston (snd g)"
proof -
  obtain r w4 where g: "g = (r, w4)" by (cases g)
  have "fst (notebook L) = fst g \<and>
        calls (snd (notebook L)) = calls (snd g) @ report_calls (space nf) (fst g) \<and>
        reg (snd (notebook L)) = reg (snd g) \<and> boston (snd (notebook L)) = boston (snd g)"
  proof (cases r)
    case (Inl e)
    with g show ?thesis
      unfolding g_def nf_def
      by (simp add: notebook_def Let_def bind_py_def cell4_def report_calls_def)
  next
    case (Inr res)
    with g have "length (res_x res) = 5"
      unfolding g_def using gp_minimize_best_length [of L "space nf"] length_space by metis
    note c5 = cell5_length5 [OF this, where nf = "n_features (cell2 L)"]
    from Inr g show ?thesis
      unfolding g_def nf_def
      by (simp add: notebook_def Let_def bind_py_def cell4_def report_calls_def
          call_display_def return_py_def cell6_def c5 log_call_def)
  qed
  then show "fst (notebook L) = fst g"
    and "calls (snd (notebook L)) = calls (snd g) @ report_calls (space nf) (fst g)"
    and "reg (snd (notebook L)) = reg (snd g)"
    and "boston (snd (notebook L)) = boston (snd g)" by simp_all
qed

lemma not_top_level:
  "\<not> top_level c \<Longrightarrow> step_of c = Evaluate_objective \<and> \<not> is_gp_minimize c"
  by (cases c) simp_all

lemma evals_steps:
  "\<forall>c\<in>set cs. \<not> top_level c \<Longrightarrow>
   map step_of cs = replicate (length cs) Evaluate_objective \<and> filter top_level cs = [] \<and>
   filter is_gp_minimize cs = []"
  by (induction cs) (simp_all add: not_top_level)

lemma notebook_calls:
  fixes L :: "'est library"
  defines "nf \<equiv> n_features (cell2 L)"
  shows "\<exists>evals. (\<forall>c\<in>set evals. \<not> top_level c) \<and>
           calls (snd (notebook L)) =
             [Call_load_boston,
              Call_GradientBoostingRegressor
                [(''n_estimators'', PyInt 50), (''random_state'', PyInt 0)]] @
             map Call_dimension (space nf) @
             [Call_use_named_args (space nf), Call_gp_minimize (space nf) 50 0] @
             evals @ report_calls (space nf) (fst (notebook L))"
proof -
  let ?g = "gp_minimize L (use_named_args (space nf) (objective L)) (space nf) 50 0
              (cell3 nf (cell2 L))"
  from gp_minimize_calls [of "use_named_args (space nf) (objective L)" L "space nf" 50 0
      "cell3 nf (cell2 L)", OF wrapped_calls]
  obtain evals where ev: "\<forall>c\<in>set evals. \<not> top_level c"
    "calls (snd ?g) = calls (cell3 nf (cell2 L)) @ [Call_gp_minimize (space nf) 50 0] @ evals"
    by blast
  have "calls (snd (notebook L)) = calls (snd ?g) @ report_calls (space nf) (fst (notebook L))"
    using notebook_run(1,2) [of L] by (simp add: nf_def)
  with ev show ?thesis by (auto simp: calls_cell3)
qed

lemma distinct_names_space: "distinct (map dim_name (space nf))"
  by (simp add: names_space)

lemma notebook_last_evaluation:
  assumes "fst (notebook L) = Inr res"
  shows "\<exists>w0 v. x_iters res \<noteq> [] \<and> length (last (x_iters res)) = 5 \<and>
           fst (objective L
                  (zip (map dim_name (space (n_features (cell2 L)))) (last (x_iters res))) w0) =
             Inr v \<and>
           reg (snd (notebook L)) = reg (snd (objective L
             (zip (map dim_name (space (n_features (cell2 L)))) (last (x_iters res))) w0))"
proof -
  let ?sp = "space (n_features (cell2 L))"
  let ?f = "use_named_args ?sp (objective L)"
  let ?g = "gp_minimize L ?f ?sp 50 0 (cell3 (n_features (cell2 L)) (cell2 L))"
  from assms notebook_run(1) [of L] have "fst ?g = Inr res" by simp
  then have g: "?g = (Inr res, snd ?g)" by (metis prod.collapse)
  from gp_minimize_Inr [OF g] obtain hist where
    run: "minimize_loop (next_point L ?sp 0) ?f 50 []
            (log_call (Call_gp_minimize ?sp 50 0) (cell3 (n_features (cell2 L)) (cell2 L))) =
          (Inr hist, snd ?g)"
    and res: "result_of hist = Inr res" by blast
  from minimize_loop_last [OF run] obtain s0 where
    ne: "hist \<noteq> []" and l: "?f (fst (last hist)) s0 = (Inr (snd (last hist)), snd ?g)"
    by auto
  from result_of_Inr [OF res] have xi: "x_iters res = map fst hist" by simp
  with ne have last: "last (x_iters res) = fst (last hist)" by (simp add: last_map)
  from wrapped_Inr_length [OF l] have len: "length (fst (last hist)) = 5"
    by (simp add: length_space)
  with l have o: "objective L (zip (map dim_name ?sp) (fst (last hist))) s0 =
                    (Inr (snd (last hist)), snd ?g)"
    by (simp add: wrapped_cases length_space)
  have "reg (snd (notebook L)) = reg (snd ?g)" using notebook_run(3) [of L] by simp
  with o have "fst (objective L (zip (map dim_name ?sp) (fst (last hist))) s0) =
                 Inr (snd (last hist)) \<and>
               reg (snd (notebook L)) =
                 reg (snd (objective L (zip (map dim_name ?sp) (fst (last hist))) s0))"
    by simp
  with last len ne xi show ?thesis by auto
qed

lemma wrapped_objective_log:
  assumes "use_named_args dims (objective L) p s = (r, s')"
  shows "case r of
           Inr v \<Rightarrow> \<exists>scores. calls s' = calls s @
                      evaluation_calls (zip (map dim_name dims) p) scores \<and>
                    v = np_neg (np_mean scores)
         | Inl e \<Rightarrow> \<exists>rest. calls s' = calls s @ rest \<and>
                    aborted_evaluation (map dim_name dims) rest"
proof (cases "length p = length dims")
  case False
  with assms show ?thesis
    by (auto simp: wrapped_cases aborted_evaluation_def)
next
  case True
  with assms have "objective L (zip (map dim_name dims) p) s = (r, s')"
    by (simp add: wrapped_cases)
  then show ?thesis
    unfolding objective_unfold
    by (auto simp: evaluation_calls_def aborted_evaluation_def
        split: prod.splits option.splits sum.splits)
qed

lemma minimize_loop_log:
  fixes dims :: "dimension list" and L :: "'est library"
  defines "blocks \<equiv> \<lambda>ps scoress.
     concat (map2 (\<lambda>p sc. evaluation_calls (zip (map dim_name dims) p) sc) ps scoress)"
  shows "minimize_loop ask (use_named_args dims (objective L)) n hist s = (r, s') \<Longrightarrow>
   \<exists>ps scoress rest.
     length scoress = length ps \<and> calls s' = calls s @ blocks ps scoress @ rest \<and>
     (case r of
        Inr hist' \<Rightarrow> rest = [] \<and> length ps = n \<and>
          hist' = hist @ zip ps (map (\<lambda>sc. np_neg (np_mean sc)) scoress)
      | Inl e \<Rightarrow> length ps < n \<and> aborted_evaluation (map dim_name dims) rest)"
proof (induction n arbitrary: hist s)
  case 0
  then have "r = Inr hist" "s' = s" by simp_all
  then show ?case
    by (intro exI [of _ "[]"]) (simp add: blocks_def)
next
  case (Suc n)
  let ?f = "use_named_args dims (objective L)"
  obtain r1 s1 where f: "?f (ask hist) s = (r1, s1)" by (cases "?f (ask hist) s")
  note w = wrapped_objective_log [OF f]
  show ?case
  proof (cases r1)
    case (Inl e)
    with f Suc.prems have "r = Inl e" "s' = s1" by simp_all
    moreover from w Inl obtain rest where
      "calls s1 = calls s @ rest" "aborted_evaluation (map dim_name dims) rest" by auto
    ultimately show ?thesis
      by (intro exI [of _ "[]"] exI [of _ rest]) (simp add: blocks_def)
  next
    case (Inr v)
    with f Suc.prems have run:
      "minimize_loop ask ?f n (hist @ [(ask hist, v)]) s1 = (r, s')" by simp
    from w Inr obtain scores where
      c1: "calls s1 = calls s @ evaluation_calls (zip (map dim_name dims) (ask hist)) scores"
      and v: "v = np_neg (np_mean scores)" by auto
    from Suc.IH [OF run] obtain ps scoress rest where
      len: "length scoress = length ps"
      and c2: "calls s' = calls s1 @ blocks ps scoress @ rest"
      and r: "case r of
        Inr hist' \<Rightarrow> rest = [] \<and> length ps = n \<and>
          hist' = (hist @ [(ask hist, v)]) @ zip ps (map (\<lambda>sc. np_neg (np_mean sc)) scoress)
      | Inl e \<Rightarrow> length ps < n \<and> aborted_evaluation (map dim_name dims) rest"
      by blast
    have "calls s' = calls s @ blocks (ask hist # ps) (scores # scoress) @ rest"
      using c1 c2 by (simp add: blocks_def)
    moreover have "length (scores # scoress) = length (ask hist # ps)" using len by simp
    moreover have "case r of
        Inr hist' \<Rightarrow> rest = [] \<and> length (ask hist # ps) = Suc n \<and>
          hist' = hist @ zip (ask hist # ps)
                    (map (\<lambda>sc. np_neg (np_mean sc)) (scores # scoress))
      | Inl e \<Rightarrow> length (ask hist # ps) < Suc n \<and>
          aborted_evaluation (map dim_name dims) rest"
      using r v by (simp split: sum.splits)
    ultimately show ?thesis by blast
  qed
qed

lemma gp_minimize_log:
  fixes dims :: "dimension list" and L :: "'est library"
  defines "g \<equiv> \<lambda>n rs w. gp_minimize L (use_named_args dims (objective L)) dims n rs w"
  assumes "0 < n"
  shows "\<exists>ps scoress rest.
     length scoress = length ps \<and>
     calls (snd (g n rs w)) =
       calls w @ [Call_gp_minimize dims n rs] @
       concat (map2 (\<lambda>p sc. evaluation_calls (zip (map dim_name dims) p) sc) ps scoress) @
       rest \<and>
     (case fst (g n rs w) of
        Inr res \<Rightarrow> rest = [] \<and> length ps = n \<and> x_iters res = ps \<and>
          func_vals res = map (\<lambda>sc. np_neg (np_mean sc)) scoress
      | Inl e \<Rightarrow> length ps < n \<and> aborted_evaluation (map dim_name dims) rest)"
proof -
  let ?w = "log_call (Call_gp_minimize dims n rs) w"
  let ?f = "use_named_args dims (objective L)"
  obtain lr w' where run: "minimize_loop (next_point L dims rs) ?f n [] ?w = (lr, w')"
    by (cases "minimize_loop (next_point L dims rs) ?f n [] ?w")
  from minimize_loop_log [OF run] obtain ps scoress rest where
    len: "length scoress = length ps"
    and c: "calls w' = calls ?w @
       concat (map2 (\<lambda>p sc. evaluation_calls (zip (map dim_name dims) p) sc) ps scoress) @
       rest"
    and r: "case lr of
        Inr hist' \<Rightarrow> rest = [] \<and> length ps = n \<and>
          hist' = [] @ zip ps (map (\<lambda>sc. np_neg (np_mean sc)) scoress)
      | Inl e \<Rightarrow> length ps < n \<and> aborted_evaluation (map dim_name dims) rest"
    by blast
  have c': "calls w' = calls w @ [Call_gp_minimize dims n rs] @
       concat (map2 (\<lambda>p sc. evaluation_calls (zip (map dim_name dims) p) sc) ps scoress) @
       rest"
    using c by (simp add: log_call_def)
  show ?thesis
  proof (cases lr)
    case (Inl e)
    with run have "g n rs w = (Inl e, w')" by (simp add: g_def gp_minimize_def)
    with Inl r c' len show ?thesis by auto
  next
    case (Inr hist')
    with r have rest: "rest = []" and n: "length ps = n"
      and h: "hist' = zip ps (map (\<lambda>sc. np_neg (np_mean sc)) scoress)" by simp_all
    from n assms(2) len have "hist' \<noteq> []" unfolding h by (cases ps; cases scoress) simp_all
    then obtain res where res: "result_of hist' = Inr res"
      using result_of_nonempty by blast
    from result_of_Inr [OF res] len have
      "x_iters res = ps" "func_vals res = map (\<lambda>sc. np_neg (np_mean sc)) scoress"
      unfolding h by simp_all
    moreover from run Inr res have "g n rs w = (Inr res, w')"
      by (simp add: g_def gp_minimize_def)
    ultimately show ?thesis using rest n c' len by auto
  qed
qed

lemma n_features_cell2: "n_features (cell2 L) = snd (shape (data (load_boston L)))"
  by (simp add: n_features_def glob_X_def cell2_def call_load_boston_def
      call_GradientBoostingRegressor_def)

lemma cell3_cell2:
  "cell3 nf (cell2 L) =
     \<lparr>calls =
        [Call_load_boston,
         Call_GradientBoostingRegressor
           [(''n_estimators'', PyInt 50), (''random_state'', PyInt 0)]] @
        map Call_dimension (space nf) @ [Call_use_named_args (space nf)],
      boston = load_boston L,
      reg = GradientBoostingRegressor L
              [(''n_estimators'', PyInt 50), (''random_state'', PyInt 0)]\<rparr>"
  by (simp add: cell3_def cell2_def call_load_boston_def call_GradientBoostingRegressor_def
      log_call_def space_def)

subsection \<open>The small library\<close>

lemma demo_reg:
  "reg demo_world =
     map_of [(''n_estimators'', PyInt 50), (''random_state'', PyInt 0),
             (''max_depth'', PyInt 3), (''learning_rate'', PyFloat (1 / 10)),
             (''max_features'', PyInt 1), (''min_samples_split'', PyInt 2),
             (''min_samples_leaf'', PyInt 1)]"
  by (simp add: demo_world_def cell2_def call_load_boston_def call_GradientBoostingRegressor_def demo_library_def)

lemma demo_set_ok:
  "set_params demo_library (reg demo_world) (demo_config d) =
     (None, reg demo_world ++ map_of (demo_config d))"
  by (simp add: demo_reg demo_library_def demo_set_params_def demo_config_def)

lemma demo_cvs:
  "1 \<le> d \<Longrightarrow>
   cross_val_score demo_library (reg demo_world ++ map_of (demo_config d)) X y 5 j s =
     Inr [- of_int d, - of_int d, - of_int d, - of_int d, - of_int d]"
  by (simp add: demo_library_def demo_cross_val_score_def demo_config_def numeral_eq_Suc)

lemma demo_objective_2:
  "fst (objective demo_library (demo_config 2) demo_world) = Inr (Fl 2)"
  by (simp add: objective_unfold demo_set_ok demo_cvs np_mean_def)

lemma demo_set_bogus:
  "set_params demo_library (reg demo_world) [(''bogus'', PyInt 1)] =
     (Some (Raised ''ValueError: invalid parameter''), reg demo_world)"
  by (simp add: demo_reg demo_library_def demo_set_params_def)

lemma demo_cvs_bad:
  "cross_val_score demo_library (reg demo_world ++ map_of (demo_config 0)) X y 5 j s =
     Inl (Raised ''ValueError: max_depth must be positive'')"
  by (simp add: demo_library_def demo_cross_val_score_def demo_config_def)

lemma sum_list_abs_nonpos:
  "\<forall>s\<in>set xs. s \<le> (0::real) \<Longrightarrow> sum_list (map abs xs) = - sum_list xs"
  by (induction xs) simp_all

lemma demo_scores_nonpos:
  "cross_val_score demo_library est X y 5 j s = Inr scores \<Longrightarrow>
     scores \<noteq> [] \<and> (\<forall>s\<in>set scores. s \<le> 0)"
  by (auto simp: demo_library_def demo_cross_val_score_def
      split: option.splits pyval.splits if_splits)

lemma map_add_overwrite: "dom m1 = dom m2 \<Longrightarrow> (e ++ m1) ++ m2 = e ++ m2"
  by (rule ext) (auto simp: map_add_def split: option.splits)

lemma demo_keys_known:
  "list_all (\<lambda>kv. est (fst kv) \<noteq> None) kw = (set (map fst kw) \<subseteq> dom est)"
  by (induction kw) auto

lemma demo_set_params_known:
  "set (map fst kw) \<subseteq> dom est \<Longrightarrow> demo_set_params est kw = (None, est ++ map_of kw)"
  unfolding demo_set_params_def demo_keys_known by (simp only: if_True)

lemma demo_set_params_unknown:
  "\<not> set (map fst kw) \<subseteq> dom est \<Longrightarrow>
   demo_set_params est kw = (Some (Raised ''ValueError: invalid parameter''), est)"
  unfolding demo_set_params_def demo_keys_known by (simp only: if_False)

lemma demo_overwrite:
  assumes "map fst kw = map fst kw'"
  shows "set_params demo_library (snd (set_params demo_library e kw)) kw' =
         set_params demo_library e kw'"
proof (cases "set (map fst kw) \<subseteq> dom e")
  case True
  have d: "dom (map_of kw) = dom (map_of kw')"
    using assms by (simp add: dom_map_of_conv_image_fst) (metis list.set_map)
  have k: "set (map fst kw') \<subseteq> dom (e ++ map_of kw)"
    using True assms by auto
  have k': "set (map fst kw') \<subseteq> dom e" using True assms by simp
  show ?thesis
    using map_add_overwrite [OF d, of e]
    by (simp add: demo_library_def demo_set_params_known [OF True]
        demo_set_params_known [OF k] demo_set_params_known [OF k'])
next
  case False
  then show ?thesis
    by (simp add: demo_library_def demo_set_params_unknown [OF False])
qed

lemma demo_config_keys: "map fst (demo_config d) = map fst (demo_config d')"
  by (simp add: demo_config_def)

lemma demo_run:
  "(case notebook demo_library of
      (Inl e, w) \<Rightarrow> False
    | (Inr res, w) \<Rightarrow>
        res_x res ! 0 = PyInt 1 \<and> last (x_iters res) ! 0 = PyInt 5 \<and>
        get_params demo_library (reg w) ''max_depth'' = Some (PyInt 5))"
  by code_simp

lemma demo_run_result:
  "\<exists>res. fst (notebook demo_library) = Inr res \<and> res_x res ! 0 = PyInt 1 \<and>
         last (x_iters res) ! 0 = PyInt 5 \<and>
         get_params demo_library (reg (snd (notebook demo_library))) ''max_depth'' =
           Some (PyInt 5)"
  using demo_run by (auto split: prod.splits sum.splits)

lemma demo_stores_params: "stores_params demo_library"
  unfolding stores_params_def
proof (intro allI impI)
  fix e kw r k v
  assume s: "set_params demo_library e kw = (None, r)"
    and d: "distinct (map fst kw)" and m: "(k, v) \<in> set kw"
  have "r = e ++ map_of kw"
  proof (cases "set (map fst kw) \<subseteq> dom e")
    case True
    with s show ?thesis by (simp add: demo_library_def demo_set_params_known)
  next
    case False
    with s show ?thesis by (simp add: demo_library_def demo_set_params_unknown)
  qed
  with d m show "get_params demo_library r k = Some v"
    by (simp add: demo_library_def map_add_def)
qed

subsection \<open>Claims\<close>

text \<open>
  C1. For every configuration, the objective does three things in this order: it sets the
  estimator's parameters to the configuration, runs the 5-fold cross-validation of the
  estimator (as \<^verbatim>\<open>set_params\<close> left it) on the dataset, and returns the negation of the mean
  of the per-fold scores. The log gains exactly these three calls, and nothing but the
  estimator and the log changes.
\<close>

theorem objective_three_steps:
  assumes "set_params L (reg w) params = (None, r)"
    and "cross_val_score L r (glob_X w) (glob_y w) 5 (- 1) ''neg_mean_absolute_error'' =
           Inr scores"
  shows "objective L params w =
           (Inr (np_neg (np_mean scores)),
            w\<lparr>calls := calls w @
                 [Call_set_params params,
                  Call_cross_val_score 5 (- 1) ''neg_mean_absolute_error'',
                  Call_np_mean scores],
              reg := r\<rparr>)"
  using assms by (simp add: objective_unfold)

theorem objective_three_steps_witness:
  "objective demo_library (demo_config 2) demo_world =
     (Inr (Fl 2),
      demo_world\<lparr>calls := calls demo_world @
           [Call_set_params (demo_config 2),
            Call_cross_val_score 5 (- 1) ''neg_mean_absolute_error'',
            Call_np_mean [- 2, - 2, - 2, - 2, - 2]],
        reg := reg demo_world ++ map_of (demo_config 2)\<rparr>)"
  using objective_three_steps [OF demo_set_ok [of 2] demo_cvs [of 2]]
  by (simp add: np_mean_def)

text \<open>
  C2. The objective has no state of its own. A call leaves everything as it was except the
  log and the estimator, and the estimator is what the library's \<^verbatim>\<open>set_params\<close> made of
  it. So, for a library whose \<^verbatim>\<open>set_params\<close> overwrites the parameters it is given (setting
  the same names twice is as setting them the second time only), the outcome of a call
  with a given configuration is the same whatever calls came before, all calls binding the
  same parameter names, as the decorated objective does.
\<close>

theorem objective_keeps_no_state:
  assumes "\<And>e kw kw'. map fst kw = map fst kw' \<Longrightarrow>
             set_params L (snd (set_params L e kw)) kw' = set_params L e kw'"
    and "\<And>c. c \<in> set before \<Longrightarrow> map fst c = map fst params"
    and "\<And>c. c \<in> set before' \<Longrightarrow> map fst c = map fst params"
  shows "snd (objective L params w) =
           w\<lparr>calls := calls (snd (objective L params w)),
             reg := snd (set_params L (reg w) params)\<rparr> \<and>
         fst (objective L params (run_objective L before w)) =
           fst (objective L params (run_objective L before' w))"
proof -
  have "set_params L (reg (run_objective L before w)) params =
        set_params L (reg (run_objective L before' w)) params"
    using run_objective_set_params [of L before params w, OF assms(1) assms(2)]
      run_objective_set_params [of L before' params w, OF assms(1) assms(3)] by simp
  then have "fst (objective L params (run_objective L before w)) =
             fst (objective L params (run_objective L before' w))"
    by (rule objective_fst_cong) (simp add: run_objective_boston)
  with objective_snd [of L params w] show ?thesis by simp
qed

theorem objective_keeps_no_state_witness:
  "snd (objective demo_library (demo_config 2) demo_world) =
     demo_world\<lparr>calls := calls (snd (objective demo_library (demo_config 2) demo_world)),
       reg := snd (set_params demo_library (reg demo_world) (demo_config 2))\<rparr> \<and>
   fst (objective demo_library (demo_config 2)
          (run_objective demo_library [demo_config 5, demo_config 3] demo_world)) =
     fst (objective demo_library (demo_config 2) (run_objective demo_library [] demo_world)) \<and>
   fst (objective demo_library (demo_config 2) (run_objective demo_library [] demo_world)) =
     Inr (Fl 2)"
proof -
  have k: "\<And>c. c \<in> set [demo_config 5, demo_config 3] \<Longrightarrow>
            map fst c = map fst (demo_config 2)"
    using demo_config_keys by auto
  have k': "\<And>c. c \<in> set ([] :: kwargs list) \<Longrightarrow> map fst c = map fst (demo_config 2)"
    by simp
  from objective_keeps_no_state [of demo_library "[demo_config 5, demo_config 3]"
      "demo_config 2" "[]" demo_world, OF demo_overwrite k k']
  show ?thesis using demo_objective_2 by simp
qed

text \<open>
  C3. A run of the notebook is these steps in this order and nothing else. The dataset is
  loaded and the estimator constructed; the five dimensions are declared and the objective
  is decorated; the optimiser is invoked, on the decorated objective and the declared
  space, in the state these steps have made: the loaded dataset, the estimator as
  constructed, and a log of exactly these calls. While the optimiser runs, the log gains
  the three calls of each evaluation of the objective, one evaluation after the other: 50
  evaluations, at the points the result lists, when the optimiser returns, and fewer,
  followed by what is left of the evaluation that raised, when it raises. The notebook
  ends in the state the optimiser left, its log extended by the display, the print and the
  plot of the result when the optimiser returned, and by nothing when it raised.
\<close>

theorem notebook_steps_in_order:
  fixes L :: "'est library"
  defines "sp \<equiv> space (snd (shape (data (load_boston L))))"
  defines "setup \<equiv>
     [Call_load_boston,
      Call_GradientBoostingRegressor
        [(''n_estimators'', PyInt 50), (''random_state'', PyInt 0)]] @
     map Call_dimension sp @ [Call_use_named_args sp]"
  defines "g \<equiv>
     gp_minimize L (use_named_args sp (objective L)) sp 50 0
       \<lparr>calls = setup, boston = load_boston L,
        reg = GradientBoostingRegressor L
                [(''n_estimators'', PyInt 50), (''random_state'', PyInt 0)]\<rparr>"
  shows "notebook L = (fst g, (snd g)\<lparr>calls := calls (snd g) @ report_calls sp (fst g)\<rparr>) \<and>
    (\<exists>ps scoress rest.
       length scoress = length ps \<and>
       calls (snd g) =
         setup @ [Call_gp_minimize sp 50 0] @
         concat (map2 (\<lambda>p sc. evaluation_calls (zip (map dim_name sp) p) sc) ps scoress) @
         rest \<and>
       (case fst g of
          Inr res \<Rightarrow> rest = [] \<and> length ps = 50 \<and> x_iters res = ps \<and>
            func_vals res = map (\<lambda>sc. np_neg (np_mean sc)) scoress
        | Inl e \<Rightarrow> length ps < 50 \<and> aborted_evaluation (map dim_name sp) rest)) \<and>
    map step_of (filter top_level (calls (snd (notebook L)))) =
      [Load_dataset, Construct_estimator, Declare_bounds, Declare_bounds, Declare_bounds,
       Declare_bounds, Declare_bounds, Define_objective, Invoke_optimizer] @
      (case fst (notebook L) of
         Inl e \<Rightarrow> []
       | Inr res \<Rightarrow> [Print_and_plot, Print_and_plot, Print_and_plot])"
proof -
  have g: "g = gp_minimize L (use_named_args (space (n_features (cell2 L))) (objective L))
                 (space (n_features (cell2 L))) 50 0
                 (cell3 (n_features (cell2 L)) (cell2 L))"
    unfolding g_def setup_def sp_def
    by (simp only: cell3_cell2 [symmetric] n_features_cell2 [symmetric])
  have sp: "sp = space (n_features (cell2 L))"
    by (simp add: sp_def n_features_cell2)
  have "snd (notebook L) = (snd g)\<lparr>calls := calls (snd g) @ report_calls sp (fst g)\<rparr>"
    using notebook_run(2,3,4) [of L] by (simp add: g sp)
  with notebook_run(1) [of L] have one:
    "notebook L = (fst g, (snd g)\<lparr>calls := calls (snd g) @ report_calls sp (fst g)\<rparr>)"
    by (simp add: g prod_eq_iff)
  have two: "\<exists>ps scoress rest.
       length scoress = length ps \<and>
       calls (snd g) =
         setup @ [Call_gp_minimize sp 50 0] @
         concat (map2 (\<lambda>p sc. evaluation_calls (zip (map dim_name sp) p) sc) ps scoress) @
         rest \<and>
       (case fst g of
          Inr res \<Rightarrow> rest = [] \<and> length ps = 50 \<and> x_iters res = ps \<and>
            func_vals res = map (\<lambda>sc. np_neg (np_mean sc)) scoress
        | Inl e \<Rightarrow> length ps < 50 \<and> aborted_evaluation (map dim_name sp) rest)"
    unfolding g_def
    using gp_minimize_log [where n = 50 and dims = sp and L = L and rs = 0 and
        w = "\<lparr>calls = setup, boston = load_boston L,
        reg = GradientBoostingRegressor L
                [(''n_estimators'', PyInt 50), (''random_state'', PyInt 0)]\<rparr>"]
    by simp
  from notebook_calls [of L] obtain evals where ev: "\<forall>c\<in>set evals. \<not> top_level c"
    and c: "calls (snd (notebook L)) =
        [Call_load_boston,
         Call_GradientBoostingRegressor
           [(''n_estimators'', PyInt 50), (''random_state'', PyInt 0)]] @
        map Call_dimension (space (n_features (cell2 L))) @
        [Call_use_named_args (space (n_features (cell2 L))),
         Call_gp_minimize (space (n_features (cell2 L))) 50 0] @
        evals @ report_calls (space (n_features (cell2 L))) (fst (notebook L))" by blast
  note es = evals_steps [OF ev]
  have three: "map step_of (filter top_level (calls (snd (notebook L)))) =
     [Load_dataset, Construct_estimator, Declare_bounds, Declare_bounds, Declare_bounds,
      Declare_bounds, Declare_bounds, Define_objective, Invoke_optimizer] @
     (case fst (notebook L) of
        Inl e \<Rightarrow> []
      | Inr res \<Rightarrow> [Print_and_plot, Print_and_plot, Print_and_plot])"
    unfolding c using es by (simp add: space_def report_calls_def split: sum.splits)
  from one two three show ?thesis by blast
qed

text \<open>
  C4. A run of the notebook calls the optimiser exactly once, with the declared space of
  five dimensions, \<^verbatim>\<open>n_calls=50\<close> and \<^verbatim>\<open>random_state=0\<close>; the function it is given is the
  decorated objective, and what the notebook has as \<^verbatim>\<open>res_gp\<close> is what this call returns.
\<close>

theorem optimizer_invoked_once:
  "filter is_gp_minimize (calls (snd (notebook L))) =
     [Call_gp_minimize (space (n_features (cell2 L))) 50 0] \<and>
   length (space (n_features (cell2 L))) = 5 \<and>
   fst (notebook L) =
     fst (gp_minimize L
            (use_named_args (space (n_features (cell2 L))) (objective L))
            (space (n_features (cell2 L))) 50 0
            (cell3 (n_features (cell2 L)) (cell2 L)))"
proof -
  from notebook_calls [of L] obtain evals where ev: "\<forall>c\<in>set evals. \<not> top_level c"
    and c: "calls (snd (notebook L)) =
        [Call_load_boston,
         Call_GradientBoostingRegressor
           [(''n_estimators'', PyInt 50), (''random_state'', PyInt 0)]] @
        map Call_dimension (space (n_features (cell2 L))) @
        [Call_use_named_args (space (n_features (cell2 L))),
         Call_gp_minimize (space (n_features (cell2 L))) 50 0] @
        evals @ report_calls (space (n_features (cell2 L))) (fst (notebook L))" by blast
  have "filter is_gp_minimize (calls (snd (notebook L))) =
     [Call_gp_minimize (space (n_features (cell2 L))) 50 0]"
    unfolding c using evals_steps [OF ev]
    by (simp add: space_def report_calls_def split: sum.splits)
  with notebook_run(1) [of L] length_space show ?thesis by simp
qed

text \<open>
  C5. The declared space has exactly five dimensions, each with an explicit lower and upper
  bound with lower \<le> upper: \<^verbatim>\<open>max_depth\<close> in [1, 5], \<^verbatim>\<open>learning_rate\<close> in [1e-5, 1],
  \<^verbatim>\<open>max_features\<close> in [1, n_features], \<^verbatim>\<open>min_samples_split\<close> in [2, 100] and
  \<^verbatim>\<open>min_samples_leaf\<close> in [1, 100]. The dataset is taken to have at least one feature column
  (the Boston data has 13).
\<close>

theorem space_bounded:
  assumes "1 \<le> nf"
  shows "length (space nf) = 5 \<and> (\<forall>d\<in>set (space nf). low d \<le> high d) \<and>
         map (\<lambda>d. (dim_name d, low d, high d)) (space nf) =
           [(''max_depth'', 1, 5), (''learning_rate'', 1 / 100000, 1),
            (''max_features'', 1, real nf), (''min_samples_split'', 2, 100),
            (''min_samples_leaf'', 1, 100)]"
  using assms by (simp add: space_def)

theorem space_bounded_witness:
  "n_features (cell2 demo_library) = 13 \<and> length (space 13) = 5 \<and>
   list_all (\<lambda>d. low d \<le> high d) (space 13) \<and>
   map (\<lambda>d. (dim_name d, low d, high d)) (space 13) =
           [(''max_depth'', 1, 5), (''learning_rate'', 1 / 100000, 1),
            (''max_features'', 1, 13), (''min_samples_split'', 2, 100),
            (''min_samples_leaf'', 1, 100)]"
  using space_bounded [of 13]
  by (simp add: list_all_iff n_features_def glob_X_def cell2_def call_load_boston_def call_GradientBoostingRegressor_def demo_library_def)

text \<open>
  C6. The objective handles no error: an exception raised by \<^verbatim>\<open>set_params\<close> or by
  \<^verbatim>\<open>cross_val_score\<close> is the exception the objective raises, and the objective returns a
  value only when both calls have returned.
\<close>

theorem objective_propagates_errors:
  "(set_params L (reg w) params = (Some e, r) \<longrightarrow> fst (objective L params w) = Inl e) \<and>
   (set_params L (reg w) params = (None, r) \<and>
    cross_val_score L r (glob_X w) (glob_y w) 5 (- 1) ''neg_mean_absolute_error'' = Inl e \<longrightarrow>
      fst (objective L params w) = Inl e) \<and>
   (fst (objective L params w) = Inr v \<longrightarrow>
      fst (set_params L (reg w) params) = None \<and>
      (\<exists>scores. cross_val_score L (snd (set_params L (reg w) params)) (glob_X w) (glob_y w)
                  5 (- 1) ''neg_mean_absolute_error'' = Inr scores))"
  by (auto simp add: objective_unfold split: prod.splits option.splits sum.splits)

theorem objective_propagates_errors_witness:
  "fst (objective demo_library [(''bogus'', PyInt 1)] demo_world) =
     Inl (Raised ''ValueError: invalid parameter'') \<and>
   fst (objective demo_library (demo_config 0) demo_world) =
     Inl (Raised ''ValueError: max_depth must be positive'') \<and>
   fst (objective demo_library (demo_config 2) demo_world) = Inr (Fl 2) \<and>
   fst (set_params demo_library (reg demo_world) (demo_config 2)) = None \<and>
   (\<exists>scores. cross_val_score demo_library
                (snd (set_params demo_library (reg demo_world) (demo_config 2)))
                (glob_X demo_world) (glob_y demo_world) 5 (- 1) ''neg_mean_absolute_error'' =
              Inr scores)"
  using objective_propagates_errors
      [of demo_library demo_world "[(''bogus'', PyInt 1)]"
          "Raised ''ValueError: invalid parameter''" "reg demo_world"]
    objective_propagates_errors
      [of demo_library demo_world "demo_config 0"
          "Raised ''ValueError: max_depth must be positive''"
          "reg demo_world ++ map_of (demo_config 0)"]
    objective_propagates_errors
      [of demo_library demo_world "demo_config 2" _ _ "Fl 2"]
    demo_set_bogus demo_set_ok [of 0] demo_cvs_bad demo_objective_2
  by simp

text \<open>
  C8. With the scoring \<^verbatim>\<open>neg_mean_absolute_error\<close> the per-fold scores are at most 0 (and
  there is one per fold, so at least one); then the value the objective returns is the mean
  of the per-fold absolute errors, and it is at least 0.
\<close>

theorem objective_nonnegative:
  assumes "fst (objective L params w) = Inr v"
    and "\<And>est scores.
           cross_val_score L est (glob_X w) (glob_y w) 5 (- 1) ''neg_mean_absolute_error'' =
             Inr scores \<Longrightarrow> scores \<noteq> [] \<and> (\<forall>s\<in>set scores. s \<le> 0)"
  shows "\<exists>scores m.
           cross_val_score L (snd (set_params L (reg w) params)) (glob_X w) (glob_y w)
             5 (- 1) ''neg_mean_absolute_error'' = Inr scores \<and>
           m = sum_list (map abs scores) / real (length scores) \<and> v = Fl m \<and> 0 \<le> m"
proof -
  from assms(1) obtain scores where
    sc: "cross_val_score L (snd (set_params L (reg w) params)) (glob_X w) (glob_y w)
           5 (- 1) ''neg_mean_absolute_error'' = Inr scores"
    and v: "v = np_neg (np_mean scores)"
    by (auto simp add: objective_unfold split: prod.splits option.splits sum.splits)
  from assms(2) [OF sc] have ne: "scores \<noteq> []" and np: "\<forall>s\<in>set scores. s \<le> 0" by simp_all
  have "v = Fl (sum_list (map abs scores) / real (length scores))"
    using v ne by (simp add: np_mean_def sum_list_abs_nonpos [OF np])
  moreover have "0 \<le> sum_list (map abs scores)"
    by (rule sum_list_nonneg) auto
  then have "0 \<le> sum_list (map abs scores) / real (length scores)"
    by simp
  ultimately show ?thesis using sc by blast
qed

theorem objective_nonnegative_witness:
  "fst (objective demo_library (demo_config 2) demo_world) = Inr (Fl 2) \<and>
   (\<exists>scores m.
      cross_val_score demo_library
        (snd (set_params demo_library (reg demo_world) (demo_config 2)))
        (glob_X demo_world) (glob_y demo_world) 5 (- 1) ''neg_mean_absolute_error'' =
        Inr scores \<and>
      m = sum_list (map abs scores) / real (length scores) \<and> Fl 2 = Fl m \<and> 0 \<le> m)"
  using objective_nonnegative [of demo_library "demo_config 2" demo_world "Fl 2",
      OF demo_objective_2 demo_scores_nonpos]
    demo_objective_2
  by simp

text \<open>
  C9. Every call of the objective changes the one shared estimator, through \<^verbatim>\<open>set_params\<close>.
  For a library whose estimator reports the parameters it was set to, the estimator holds
  the configuration of the call once \<^verbatim>\<open>set_params\<close> has returned; and when the optimiser
  has returned, it holds the configuration evaluated last. That configuration need not be
  the best one: there is a library (it keeps its contract) on which the notebook ends with
  an estimator whose depth is not the depth of the best point.
\<close>

theorem estimator_holds_last_configuration:
  assumes "stores_params L"
  shows "reg (snd (objective L params w)) = snd (set_params L (reg w) params) \<and>
    (fst (set_params L (reg w) params) = None \<and> distinct (map fst params) \<and>
     (k, v) \<in> set params \<longrightarrow>
       get_params L (reg (snd (objective L params w))) k = Some v) \<and>
    (fst (notebook L) = Inr res \<longrightarrow>
       x_iters res \<noteq> [] \<and>
       map (get_params L (reg (snd (notebook L))))
         [''max_depth'', ''learning_rate'', ''max_features'', ''min_samples_split'',
          ''min_samples_leaf''] = map Some (last (x_iters res))) \<and>
    (\<exists>(L' :: (string \<Rightarrow> pyval option) library) res'.
       stores_params L' \<and> fst (notebook L') = Inr res' \<and>
       last (x_iters res') \<noteq> res_x res' \<and>
       get_params L' (reg (snd (notebook L'))) ''max_depth'' \<noteq> Some (res_x res' ! 0))"
proof -
  note c = assms [unfolded stores_params_def, rule_format]
  have one: "reg (snd (objective L params w)) = snd (set_params L (reg w) params)"
    by (rule objective_reg)
  have two: "fst (set_params L (reg w) params) = None \<and> distinct (map fst params) \<and>
     (k, v) \<in> set params \<longrightarrow>
       get_params L (reg (snd (objective L params w))) k = Some v"
  proof (intro impI, elim conjE)
    assume "fst (set_params L (reg w) params) = None"
      and d: "distinct (map fst params)" and m: "(k, v) \<in> set params"
    then have "set_params L (reg w) params = (None, snd (set_params L (reg w) params))"
      by (metis prod.collapse)
    from c [OF this d m] show "get_params L (reg (snd (objective L params w))) k = Some v"
      by (simp add: one)
  qed
  have three: "fst (notebook L) = Inr res \<longrightarrow>
       x_iters res \<noteq> [] \<and>
       map (get_params L (reg (snd (notebook L))))
         [''max_depth'', ''learning_rate'', ''max_features'', ''min_samples_split'',
          ''min_samples_leaf''] = map Some (last (x_iters res))"
  proof
    assume "fst (notebook L) = Inr res"
    from notebook_last_evaluation [OF this] obtain w0 u where
      ne: "x_iters res \<noteq> []" and len: "length (last (x_iters res)) = 5"
      and o: "fst (objective L
                (zip (map dim_name (space (n_features (cell2 L)))) (last (x_iters res))) w0) =
              Inr u"
      and r: "reg (snd (notebook L)) = reg (snd (objective L
             (zip (map dim_name (space (n_features (cell2 L)))) (last (x_iters res))) w0))"
      by blast
    from len obtain x0 x1 x2 x3 x4 where p: "last (x_iters res) = [x0, x1, x2, x3, x4]"
      by (auto simp: length_Suc_conv numeral_eq_Suc)
    let ?kw = "[(''max_depth'', x0), (''learning_rate'', x1), (''max_features'', x2),
                (''min_samples_split'', x3), (''min_samples_leaf'', x4)]"
    have kw: "zip (map dim_name (space (n_features (cell2 L)))) (last (x_iters res)) = ?kw"
      by (simp add: names_space p)
    have "fst (set_params L (reg w0) ?kw) = None"
      using objective_Inr_set_params [OF o] by (simp add: kw)
    then have sp: "set_params L (reg w0) ?kw = (None, reg (snd (notebook L)))"
      using r by (simp add: kw objective_reg) (metis prod.collapse)
    have d: "distinct (map fst ?kw)" by simp
    have "\<And>k v. (k, v) \<in> set ?kw \<Longrightarrow> get_params L (reg (snd (notebook L))) k = Some v"
      using c [OF sp d] by blast
    then show "x_iters res \<noteq> [] \<and>
       map (get_params L (reg (snd (notebook L))))
         [''max_depth'', ''learning_rate'', ''max_features'', ''min_samples_split'',
          ''min_samples_leaf''] = map Some (last (x_iters res))"
      using ne p by simp
  qed
  from demo_run_result obtain res0 where
    d: "fst (notebook demo_library) = Inr res0" "res_x res0 ! 0 = PyInt 1"
      "last (x_iters res0) ! 0 = PyInt 5"
      "get_params demo_library (reg (snd (notebook demo_library))) ''max_depth'' =
         Some (PyInt 5)" by blast
  then have "last (x_iters res0) \<noteq> res_x res0" by auto
  with d demo_stores_params have four:
    "\<exists>(L' :: (string \<Rightarrow> pyval option) library) res'.
       stores_params L' \<and> fst (notebook L') = Inr res' \<and>
       last (x_iters res') \<noteq> res_x res' \<and>
       get_params L' (reg (snd (notebook L'))) ''max_depth'' \<noteq> Some (res_x res' ! 0)"
    by (intro exI [of _ demo_library] exI [of _ res0]) simp
  from one two three four show ?thesis by blast
qed

theorem estimator_holds_last_configuration_witness:
  "stores_params demo_library \<and>
   get_params demo_library (reg (snd (objective demo_library (demo_config 2) demo_world)))
     ''max_depth'' = Some (PyInt 2) \<and>
   (\<exists>res. fst (notebook demo_library) = Inr res \<and> x_iters res \<noteq> [] \<and>
      res_x res ! 0 = PyInt 1 \<and>
      map (get_params demo_library (reg (snd (notebook demo_library))))
         [''max_depth'', ''learning_rate'', ''max_features'', ''min_samples_split'',
          ''min_samples_leaf''] = map Some (last (x_iters res)) \<and>
      get_params demo_library (reg (snd (notebook demo_library))) ''max_depth'' =
        Some (PyInt 5))"
proof -
  from demo_run_result obtain res0 where
    d: "fst (notebook demo_library) = Inr res0" "res_x res0 ! 0 = PyInt 1"
      "get_params demo_library (reg (snd (notebook demo_library))) ''max_depth'' =
         Some (PyInt 5)" by blast
  have s: "fst (set_params demo_library (reg demo_world) (demo_config 2)) = None"
    by (simp add: demo_set_ok)
  have m: "(''max_depth'', PyInt 2) \<in> set (demo_config 2)" "distinct (map fst (demo_config 2))"
    by (simp_all add: demo_config_def)
  from estimator_holds_last_configuration [OF demo_stores_params,
      of "demo_config 2" demo_world "''max_depth''" "PyInt 2" res0] d s m demo_stores_params
  show ?thesis by blast
qed

text \<open>
  C10. The decorated objective takes one point of five values and binds them, in the order
  of the declared space, to \<^verbatim>\<open>max_depth\<close>, \<^verbatim>\<open>learning_rate\<close>, \<^verbatim>\<open>max_features\<close>,
  \<^verbatim>\<open>min_samples_split\<close> and \<^verbatim>\<open>min_samples_leaf\<close>; the printout of the best point labels its
  coordinates with the same names in the same order.
\<close>

theorem use_named_args_binds_in_order:
  "use_named_args (space nf) func [x0, x1, x2, x3, x4] =
     func [(''max_depth'', x0), (''learning_rate'', x1), (''max_features'', x2),
           (''min_samples_split'', x3), (''min_samples_leaf'', x4)] \<and>
   cell5 (res\<lparr>res_x := [x0, x1, x2, x3, x4]\<rparr>) w =
     (Inr (),
      log_call (Call_print (zip (map dim_name (space nf)) [x0, x1, x2, x3, x4])) w)"
  using cell5_length5 [of "res\<lparr>res_x := [x0, x1, x2, x3, x4]\<rparr>" w nf]
  by (simp add: use_named_args_def space_def)

end
